theory Spec2Isabelle
  imports Complex_Main
begin

section \<open>The notebook \<^verbatim>\<open>02_mqtt_paho.ipynb\<close>\<close>

text \<open>
  The notebook is a linear script of code cells. Its own logic is the registration of
  callbacks on a \<^verbatim>\<open>paho\<close> client, two fixed busy-waits, a polling loop over the
  board's buttons and a timing loop around \<^verbatim>\<open>client.publish\<close>. Everything behind
  the calls it makes (the client library, the broker, the GPIO drivers, the timer) is
  outside the repository; the model records each such call in a trace and takes every
  value that comes back from outside (button levels, delivered packets, timer readings)
  from an environment that is a parameter of every definition.

  What the model leaves out: the text written by \<^verbatim>\<open>print\<close> and the plot (only
  the evaluation of their arguments is kept, where it can raise), the broker helper of
  cells 1, 3 and 18, and exceptions raised inside the external libraries.
\<close>

subsection \<open>Data\<close>

text \<open>The exceptions the notebook's own statements can raise.\<close>

datatype py_error = NameError | IndexError | ZeroDivisionError

text \<open>
  The callback attributes of a \<^verbatim>\<open>paho.mqtt.client.Client\<close> and the four functions
  the notebook defines with \<^verbatim>\<open>def\<close> in cells 5 and 9.
\<close>

datatype slot = OnConnect | OnDisconnect | OnMessage | OnPublish | OnSubscribe | OnUnsubscribe | OnLog

datatype callback = Fn_on_subscribe | Fn_on_connect | Fn_on_publish | Fn_on_message

record message =
  topic :: string
  payload :: string
  qos :: nat

text \<open>What one call of \<^verbatim>\<open>client.loop\<close> may hand to the callbacks.\<close>

datatype packet = ConnAck | SubAck | PubAck | Incoming message

text \<open>
  The calls that leave the script, in the order they are made. A timeout is the literal of
  the source, in seconds.
\<close>

datatype event =
    Connect string nat
  | Subscribe string
  | Publish string string
  | Loop real
  | Read nat
  | Toggle nat

text \<open>
  The environment: \<open>btn e t i\<close> is what \<^verbatim>\<open>btns[i].read()\<close> returns when it is the
  \<open>t\<close>-th button read of the run, \<open>inbox e k\<close> the packets the \<open>k\<close>-th call of
  \<^verbatim>\<open>client.loop\<close> delivers, \<open>clock e k\<close> the \<open>k\<close>-th reading of
  \<^verbatim>\<open>timeit.default_timer()\<close>.
\<close>

record env =
  btn :: "nat \<Rightarrow> nat \<Rightarrow> int"
  inbox :: "nat \<Rightarrow> packet list"
  clock :: "nat \<Rightarrow> real"

record world =
  reads :: nat
  loops :: nat
  timer_calls :: nat
  leds :: "bool list"
  slots :: "slot \<rightharpoonup> callback"
  trace :: "event list"

text \<open>The events a step appended to the trace.\<close>

definition emitted :: "world \<Rightarrow> world \<Rightarrow> event list" where
  "emitted w w' = drop (length (trace w)) (trace w')"

subsection \<open>Python's \<^verbatim>\<open>str\<close> on integers\<close>

definition digit_char :: "nat \<Rightarrow> char" where
  "digit_char d = ''0123456789'' ! d"

fun str_nat :: "nat \<Rightarrow> string" where
  "str_nat n = (if n < 10 then [digit_char n] else str_nat (n div 10) @ [digit_char (n mod 10)])"

declare str_nat.simps [simp del]

definition str_int :: "int \<Rightarrow> string" where
  "str_int i = (if i < 0 then CHR ''-'' # str_nat (nat (- i)) else str_nat (nat i))"

subsection \<open>The external calls\<close>

definition client_connect :: "string \<Rightarrow> nat \<Rightarrow> world \<Rightarrow> world" where
  "client_connect host port w = w\<lparr>trace := trace w @ [Connect host port]\<rparr>"

definition client_subscribe :: "string \<Rightarrow> world \<Rightarrow> world" where
  "client_subscribe pattern w = w\<lparr>trace := trace w @ [Subscribe pattern]\<rparr>"

definition client_publish :: "string \<Rightarrow> string \<Rightarrow> world \<Rightarrow> world" where
  "client_publish t p w = w\<lparr>trace := trace w @ [Publish t p]\<rparr>"

text \<open>\<^verbatim>\<open>btns[index].read()\<close>\<close>

definition read_btn :: "env \<Rightarrow> nat \<Rightarrow> world \<Rightarrow> int \<times> world" where
  "read_btn e index w =
     (btn e (reads w) index, w\<lparr>reads := Suc (reads w), trace := trace w @ [Read index]\<rparr>)"

text \<open>\<^verbatim>\<open>timeit.default_timer()\<close>\<close>

definition default_timer :: "env \<Rightarrow> world \<Rightarrow> real \<times> world" where
  "default_timer e w = (clock e (timer_calls w), w\<lparr>timer_calls := Suc (timer_calls w)\<rparr>)"

text \<open>\<^verbatim>\<open>led.toggle()\<close> on the LED at position \<open>i\<close> of \<^verbatim>\<open>leds\<close>.\<close>

definition led_toggle :: "nat \<Rightarrow> world \<Rightarrow> world" where
  "led_toggle i w = w\<lparr>leds := (leds w)[i := \<not> leds w ! i], trace := trace w @ [Toggle i]\<rparr>"

subsection \<open>Cells 5 and 9: the callbacks\<close>

text \<open>
  \<^verbatim>\<open>
  def on_subscribe(client, userdata, mid, granted_qos):
      print("Subscription Succeeded!")
  def on_connect(client, userdata, flags, rc):
      print("Connection Succeeded!")
  def on_publish(client, userdata, mid):
      print("Publish Succeeded!")
  def on_message(client, userdata, message):
      print("Received message '" + str(message.payload) +
            "' on topic '" + message.topic + "' with QoS " + str(message.qos))
      for led in leds:
          led.toggle()
  \<close>
\<close>

definition on_subscribe :: "world \<Rightarrow> world" where
  "on_subscribe w = w"

definition on_connect :: "world \<Rightarrow> world" where
  "on_connect w = w"

definition on_publish :: "world \<Rightarrow> world" where
  "on_publish w = w"

definition on_message :: "message \<Rightarrow> world \<Rightarrow> world" where
  "on_message msg w = foldl (\<lambda>w' led. led_toggle led w') w [0..<length (leds w)]"

text \<open>
  Calling a registered function on a packet. In the notebook each function sits in the
  attribute of its own name, so \<^verbatim>\<open>on_message\<close> only ever receives a message.
\<close>

fun run_callback :: "callback \<Rightarrow> packet \<Rightarrow> world \<Rightarrow> world" where
  "run_callback Fn_on_message (Incoming msg) w = on_message msg w"
| "run_callback Fn_on_message _ w = w"
| "run_callback Fn_on_subscribe _ w = on_subscribe w"
| "run_callback Fn_on_connect _ w = on_connect w"
| "run_callback Fn_on_publish _ w = on_publish w"

fun slot_of :: "packet \<Rightarrow> slot" where
  "slot_of ConnAck = OnConnect"
| "slot_of SubAck = OnSubscribe"
| "slot_of PubAck = OnPublish"
| "slot_of (Incoming msg) = OnMessage"

definition dispatch :: "packet \<Rightarrow> world \<Rightarrow> world" where
  "dispatch p w = (case slots w (slot_of p) of None \<Rightarrow> w | Some f \<Rightarrow> run_callback f p w)"

text \<open>
  \<^verbatim>\<open>client.loop(timeout=t)\<close>: one call, which hands the packets that arrived to the
  callbacks and returns.
\<close>

definition client_loop :: "env \<Rightarrow> real \<Rightarrow> world \<Rightarrow> world" where
  "client_loop e timeout w =
     foldl (\<lambda>w' p. dispatch p w')
       (w\<lparr>loops := Suc (loops w), trace := trace w @ [Loop timeout]\<rparr>)
       (inbox e (loops w))"

text \<open>\<^verbatim>\<open>mqtt.Client()\<close>: a new client has no callback set.\<close>

definition mqtt_Client :: "slot \<rightharpoonup> callback" where
  "mqtt_Client = Map.empty"

definition set_callback :: "slot \<Rightarrow> callback \<Rightarrow> world \<Rightarrow> world" where
  "set_callback s f w = w\<lparr>slots := (slots w)(s \<mapsto> f)\<rparr>"

text \<open>
  \<^verbatim>\<open>
  client = mqtt.Client()
  ...
  client.on_subscribe = on_subscribe
  client.on_connect = on_connect
  \<close>
\<close>

definition cell5 :: "world \<Rightarrow> world" where
  "cell5 w =
     set_callback OnConnect Fn_on_connect
       (set_callback OnSubscribe Fn_on_subscribe (w\<lparr>slots := mqtt_Client\<rparr>))"

text \<open>
  \<^verbatim>\<open>
  client.connect("localhost", 1883)
  for _ in range(10):
      client.loop(timeout=.1)
  \<close>
\<close>

definition cell7 :: "env \<Rightarrow> world \<Rightarrow> world" where
  "cell7 e w =
     foldl (\<lambda>w' _. client_loop e 0.1 w') (client_connect ''localhost'' 1883 w) [0..<10]"

text \<open>\<^verbatim>\<open>client.on_message = on_message\<close>\<close>

definition cell9 :: "world \<Rightarrow> world" where
  "cell9 w = set_callback OnMessage Fn_on_message w"

text \<open>
  \<^verbatim>\<open>
  client.subscribe("button/#")
  for _ in range(10):
      client.loop(timeout=.1)
  \<close>
\<close>

definition cell12 :: "env \<Rightarrow> world \<Rightarrow> world" where
  "cell12 e w =
     foldl (\<lambda>w' _. client_loop e 0.1 w') (client_subscribe ''button/#'' w) [0..<10]"

subsection \<open>Cell 14: the polling loop\<close>

text \<open>
  \<^verbatim>\<open>
  last = [btns[index].read() for index in range(3)]

  print("Waiting for button presses...")
  while (btns[3].read()==0):
      current = [btns[index].read() for index in range(3)]
      changed = [current[index] != last[index] for index in range(3)]
      _ = [client.publish('button/' + str(index), str(current[index]))
              if(changed[index]) else None for index in range(3)]
      last = current
      client.loop(timeout=.001)

  print(current)
  _ = [client.publish('button/'+str(index), "offline") for index in range(3)]
  \<close>
  A subscript out of range raises \<^verbatim>\<open>IndexError\<close>; a name that no assignment has
  bound yet raises \<^verbatim>\<open>NameError\<close>.
\<close>

definition getitem :: "'a list \<Rightarrow> nat \<Rightarrow> py_error + 'a" where
  "getitem xs i = (if i < length xs then Inr (xs ! i) else Inl IndexError)"

text \<open>\<^verbatim>\<open>[btns[index].read() for index in ...]\<close>: the reads happen in the order of the indices.\<close>

fun read_buttons :: "env \<Rightarrow> nat list \<Rightarrow> world \<Rightarrow> int list \<times> world" where
  "read_buttons e [] w = ([], w)"
| "read_buttons e (index # rest) w =
     (let (v, w1) = read_btn e index w;
          (vs, w2) = read_buttons e rest w1
      in (v # vs, w2))"

text \<open>\<^verbatim>\<open>[current[index] != last[index] for index in ...]\<close>\<close>

fun changed_list :: "int list \<Rightarrow> int list \<Rightarrow> nat list \<Rightarrow> py_error + bool list" where
  "changed_list current last_v [] = Inr []"
| "changed_list current last_v (index # rest) =
     (case getitem current index of
        Inl err \<Rightarrow> Inl err
      | Inr c \<Rightarrow>
          (case getitem last_v index of
             Inl err \<Rightarrow> Inl err
           | Inr l \<Rightarrow>
               (case changed_list current last_v rest of
                  Inl err \<Rightarrow> Inl err
                | Inr bs \<Rightarrow> Inr ((c \<noteq> l) # bs))))"

text \<open>
  \<^verbatim>\<open>[client.publish('button/' + str(index), str(current[index])) if(changed[index]) else None
     for index in ...]\<close>; the result list is thrown away.
\<close>

fun publish_changes :: "int list \<Rightarrow> bool list \<Rightarrow> nat list \<Rightarrow> world \<Rightarrow> py_error option \<times> world" where
  "publish_changes current changed [] w = (None, w)"
| "publish_changes current changed (index # rest) w =
     (case getitem changed index of
        Inl err \<Rightarrow> (Some err, w)
      | Inr ch \<Rightarrow>
          if ch then
            (case getitem current index of
               Inl err \<Rightarrow> (Some err, w)
             | Inr v \<Rightarrow>
                 publish_changes current changed rest
                   (client_publish (''button/'' @ str_nat index) (str_int v) w))
          else publish_changes current changed rest w)"

text \<open>
  The variables of the cell. \<open>current = None\<close> says that the name \<^verbatim>\<open>current\<close> is not
  bound.
\<close>

record poll_state =
  last_v :: "int list"
  current :: "int list option"
  pworld :: world

text \<open>The body of the \<^verbatim>\<open>while\<close>, with the exception it stopped at, if any.\<close>

definition poll_body :: "env \<Rightarrow> poll_state \<Rightarrow> py_error option \<times> poll_state" where
  "poll_body e s =
     (let (cur, w1) = read_buttons e [0..<3] (pworld s);
          s1 = s\<lparr>current := Some cur, pworld := w1\<rparr>
      in case changed_list cur (last_v s) [0..<3] of
           Inl err \<Rightarrow> (Some err, s1)
         | Inr changed \<Rightarrow>
             (case publish_changes cur changed [0..<3] w1 of
                (Some err, w2) \<Rightarrow> (Some err, s1\<lparr>pworld := w2\<rparr>)
              | (None, w2) \<Rightarrow>
                  (None, s1\<lparr>last_v := cur, pworld := client_loop e 0.001 w2\<rparr>)))"

text \<open>
  The loop can run forever, so it takes fuel: the number of times it may evaluate its
  condition. \<open>Running\<close> is the answer of a loop that has used its fuel and has not
  left yet; the state it returns with is the state the run has reached by then.
\<close>

datatype status = Running | Exited | Raised py_error

fun poll_loop :: "nat \<Rightarrow> env \<Rightarrow> poll_state \<Rightarrow> status \<times> poll_state" where
  "poll_loop 0 e s = (Running, s)"
| "poll_loop (Suc fuel) e s =
     (let (b3, w1) = read_btn e 3 (pworld s) in
      if b3 = 0 then
        (case poll_body e (s\<lparr>pworld := w1\<rparr>) of
           (Some err, s') \<Rightarrow> (Raised err, s')
         | (None, s') \<Rightarrow> poll_loop fuel e s')
      else (Exited, s\<lparr>pworld := w1\<rparr>))"

text \<open>\<^verbatim>\<open>[client.publish('button/'+str(index), "offline") for index in ...]\<close>\<close>

fun publish_offline :: "nat list \<Rightarrow> world \<Rightarrow> world" where
  "publish_offline [] w = w"
| "publish_offline (index # rest) w =
     publish_offline rest (client_publish (''button/'' @ str_nat index) ''offline'' w)"

text \<open>The first statement of the cell, up to the loop.\<close>

definition poll_init :: "env \<Rightarrow> world \<Rightarrow> poll_state" where
  "poll_init e w =
     (let (l, w0) = read_buttons e [0..<3] w
      in \<lparr>last_v = l, current = None, pworld = w0\<rparr>)"

text \<open>
  The whole cell, run in a kernel where \<^verbatim>\<open>current\<close> is not bound before:
  \<^verbatim>\<open>print(current)\<close> evaluates the name before anything is published.
\<close>

definition cell14 :: "nat \<Rightarrow> env \<Rightarrow> world \<Rightarrow> status \<times> poll_state" where
  "cell14 fuel e w =
     (case poll_loop fuel e (poll_init e w) of
        (Exited, s) \<Rightarrow>
          (case current s of
             None \<Rightarrow> (Raised NameError, s)
           | Some cur \<Rightarrow> (Exited, s\<lparr>pworld := publish_offline [0..<3] (pworld s)\<rparr>))
      | (st, s) \<Rightarrow> (st, s))"

subsection \<open>Cell 16: the timing loop\<close>

text \<open>
  \<^verbatim>\<open>
  num_records = 100
  time_records = [0 for _ in range(num_records)]
  total_time = 0

  for i in range(num_records):
      start_time = timeit.default_timer()
      client.publish("foo", "bar")
      elapsed = timeit.default_timer() - start_time
      time_records[i] = elapsed
      total_time += elapsed

  plt.bar(range(num_records), time_records, align='center')
  ...
  print("Average speed: " + str(num_records/total_time)+" packets/second.")
  \<close>
  Timer readings are real numbers here and the arithmetic on them is exact: the rounding
  of floating point is not modelled. \<^verbatim>\<open>x/total_time\<close> raises
  \<^verbatim>\<open>ZeroDivisionError\<close> when \<^verbatim>\<open>total_time\<close> is zero.
\<close>

definition num_records :: nat where
  "num_records = 100"

record bench_state =
  time_records :: "real list"
  total_time :: real
  bworld :: world

fun bench_loop :: "env \<Rightarrow> nat list \<Rightarrow> bench_state \<Rightarrow> py_error option \<times> bench_state" where
  "bench_loop e [] b = (None, b)"
| "bench_loop e (i # rest) b =
     (let (start_time, w1) = default_timer e (bworld b);
          w2 = client_publish ''foo'' ''bar'' w1;
          (t, w3) = default_timer e w2;
          elapsed = t - start_time
      in if i < length (time_records b)
         then bench_loop e rest
                (b\<lparr>time_records := (time_records b)[i := elapsed],
                   total_time := total_time b + elapsed,
                   bworld := w3\<rparr>)
         else (Some IndexError, b\<lparr>bworld := w3\<rparr>))"

definition py_div :: "real \<Rightarrow> real \<Rightarrow> py_error + real" where
  "py_div a b = (if b = 0 then Inl ZeroDivisionError else Inr (a / b))"

text \<open>
  The cell returns the value of \<^verbatim>\<open>num_records/total_time\<close> (or the exception) with the
  final variables.
\<close>

definition cell16 :: "env \<Rightarrow> world \<Rightarrow> (py_error + real) \<times> bench_state" where
  "cell16 e w =
     (case bench_loop e [0..<num_records]
             \<lparr>time_records = replicate num_records 0, total_time = 0, bworld = w\<rparr> of
        (Some err, b) \<Rightarrow> (Inl err, b)
      | (None, b) \<Rightarrow> (py_div (real num_records) (total_time b), b))"

subsection \<open>The notebook, run from the top\<close>

text \<open>
  The cells in their order, each run once. A cell that raises stops the run. The cells
  that only import, build the overlay or drive the broker helper change nothing the model
  keeps.
\<close>

definition notebook :: "nat \<Rightarrow> env \<Rightarrow> world \<Rightarrow> status \<times> world" where
  "notebook fuel e w =
     (case cell14 fuel e (cell12 e (cell9 (cell7 e (cell5 w)))) of
        (Exited, s) \<Rightarrow>
          (case cell16 e (pworld s) of
             (Inl err, b) \<Rightarrow> (Raised err, bworld b)
           | (Inr speed, b) \<Rightarrow> (Exited, bworld b))
      | (st, s) \<Rightarrow> (st, pworld s))"

subsection \<open>Reading a trace\<close>

text \<open>The \<^verbatim>\<open>publish\<close> calls of a trace, as (topic, payload), in order.\<close>

fun publishes :: "event list \<Rightarrow> (string \<times> string) list" where
  "publishes [] = []"
| "publishes (Publish t p # evs) = (t, p) # publishes evs"
| "publishes (_ # evs) = publishes evs"

text \<open>The timeouts of the \<^verbatim>\<open>client.loop\<close> calls of a trace, in order.\<close>

fun loop_calls :: "event list \<Rightarrow> real list" where
  "loop_calls [] = []"
| "loop_calls (Loop t # evs) = t # loop_calls evs"
| "loop_calls (_ # evs) = loop_calls evs"

text \<open>The indices of the buttons read in a trace, in order.\<close>

fun button_reads :: "event list \<Rightarrow> nat list" where
  "button_reads [] = []"
| "button_reads (Read i # evs) = i # button_reads evs"
| "button_reads (_ # evs) = button_reads evs"

text \<open>The publishes of a trace on one topic.\<close>

definition published_on :: "string \<Rightarrow> event list \<Rightarrow> (string \<times> string) list" where
  "published_on t evs = filter (\<lambda>tp. fst tp = t) (publishes evs)"

text \<open>
  What the three reads of one list comprehension return when the first of them is the
  \<open>r\<close>-th read of the run.
\<close>

definition sampled :: "env \<Rightarrow> nat \<Rightarrow> int list" where
  "sampled e r = map (\<lambda>index. btn e (r + index) index) [0..<3]"

text \<open>
  The publishes that report the values \<open>cur\<close> against the recorded values \<open>old\<close>:
  one for each index where they differ, in the order of the indices.
\<close>

definition change_events :: "int list \<Rightarrow> int list \<Rightarrow> event list" where
  "change_events cur old =
     concat (map (\<lambda>index. if cur ! index \<noteq> old ! index
                            then [Publish (''button/'' @ str_nat index) (str_int (cur ! index))]
                            else []) [0..<3])"

text \<open>The topics \<^verbatim>\<open>'button/' + str(index)\<close> for \<^verbatim>\<open>index in range(3)\<close>.\<close>

definition button_topics :: "string list" where
  "button_topics = map (\<lambda>index. ''button/'' @ str_nat index) [0..<3]"

text \<open>
  The elapsed time the timing loop measures in its iteration \<open>i\<close>, when \<open>c\<close> timer
  readings were taken before the loop: the difference of the two readings of that
  iteration.
\<close>

definition elapsed_sample :: "env \<Rightarrow> nat \<Rightarrow> nat \<Rightarrow> real" where
  "elapsed_sample e c i = clock e (c + 2 * i + 1) - clock e (c + 2 * i)"

subsection \<open>Topic patterns\<close>

text \<open>\<^verbatim>\<open>s.split(c)\<close>\<close>

fun split_on :: "char \<Rightarrow> string \<Rightarrow> string list" where
  "split_on c [] = [[]]"
| "split_on c (x # xs) =
     (if x = c then [] # split_on c xs
      else (case split_on c xs of
              [] \<Rightarrow> [[x]]
            | seg # segs \<Rightarrow> (x # seg) # segs))"

text \<open>
  Modelled from the spec: the matching of a topic against a subscription pattern, which
  the broker does and the repository does not contain. The spec's glossary: a topic is a
  hierarchical routing key, and "a wildcard segment matches any value at that position".
  The segments are the parts between \<^verbatim>\<open>/\<close>; the wildcard segments are \<^verbatim>\<open>#\<close>
  and \<^verbatim>\<open>+\<close>.
\<close>

definition segment_matches :: "string \<Rightarrow> string \<Rightarrow> bool" where
  "segment_matches p t = (p = ''#'' \<or> p = ''+'' \<or> p = t)"

definition topic_matches :: "string \<Rightarrow> string \<Rightarrow> bool" where
  "topic_matches pattern t =
     list_all2 segment_matches (split_on CHR ''/'' pattern) (split_on CHR ''/'' t)"

subsection \<open>Concrete runs\<close>

text \<open>A board with four LEDs off, before the first cell.\<close>

definition board :: world where
  "board = \<lparr>reads = 0, loops = 0, timer_calls = 0, leds = [False, False, False, False],
            slots = Map.empty, trace = []\<rparr>"

text \<open>
  Button 3 is held down from the start; the other buttons are up. Nothing arrives and
  the timer advances by one second per reading.
\<close>

definition held :: env where
  "held = \<lparr>btn = (\<lambda>t i. if i = 3 then 1 else 0), inbox = (\<lambda>k. []), clock = (\<lambda>k. real k)\<rparr>"

text \<open>
  Button 0 is up at reads 0 to 3, down from read 4 on; button 3 is pressed from read 8
  on (the loop's third check). The broker delivers the message on \<^verbatim>\<open>button/0\<close> in
  loop call 20, which is the first of the polling loop when the notebook runs from the
  top.
\<close>

definition press0 :: env where
  "press0 = \<lparr>btn = (\<lambda>t i. if i = 0 \<and> 4 \<le> t then 1 else if i = 3 \<and> 8 \<le> t then 1 else 0),
             inbox = (\<lambda>k. if k = 20 then [Incoming \<lparr>topic = ''button/0'', payload = ''1'', qos = 0\<rparr>] else []),
             clock = (\<lambda>k. real k)\<rparr>"

text \<open>
  As \<open>held\<close>, with a timer too coarse for the timing loop: every reading is the same.
\<close>

definition frozen :: env where
  "frozen = \<lparr>btn = (\<lambda>t i. if i = 3 then 1 else 0), inbox = (\<lambda>k. []), clock = (\<lambda>k. 5)\<rparr>"

section \<open>Lemmas\<close>

subsection \<open>Traces\<close>

lemma publishes_append [simp]: "publishes (xs @ ys) = publishes xs @ publishes ys"
  by (induction xs rule: publishes.induct) auto

lemma loop_calls_append [simp]: "loop_calls (xs @ ys) = loop_calls xs @ loop_calls ys"
  by (induction xs rule: loop_calls.induct) auto

lemma button_reads_append [simp]: "button_reads (xs @ ys) = button_reads xs @ button_reads ys"
  by (induction xs rule: button_reads.induct) auto

lemma publishes_Toggle [simp]: "publishes (map Toggle ks) = []"
  by (induction ks) auto

lemma loop_calls_Toggle [simp]: "loop_calls (map Toggle ks) = []"
  by (induction ks) auto

lemma button_reads_Toggle [simp]: "button_reads (map Toggle ks) = []"
  by (induction ks) auto

lemma published_on_append [simp]:
  "published_on t (xs @ ys) = published_on t xs @ published_on t ys"
  by (simp add: published_on_def)

lemma emittedI: "trace w' = trace w @ evs \<Longrightarrow> emitted w w' = evs"
  by (simp add: emitted_def)

lemma emitted_self [simp]: "emitted w w = []"
  by (simp add: emitted_def)

subsection \<open>The callbacks and \<^verbatim>\<open>client.loop\<close>\<close>

lemma toggle_prefix:
  "k \<le> length (leds w) \<Longrightarrow>
   foldl (\<lambda>w' led. led_toggle led w') w [0..<k] =
   w\<lparr>leds := map Not (take k (leds w)) @ drop k (leds w), trace := trace w @ map Toggle [0..<k]\<rparr>"
proof (induction k)
  case 0
  then show ?case by simp
next
  case (Suc k)
  then have k: "k < length (leds w)" by simp
  let ?xs = "map Not (take k (leds w)) @ drop k (leds w)"
  have "?xs[k := \<not> ?xs ! k] = map Not (take (Suc k) (leds w)) @ drop (Suc k) (leds w)"
    using k by (auto intro!: nth_equalityI simp: nth_append nth_list_update less_Suc_eq)
  with Suc k show ?case
    by (simp add: led_toggle_def)
qed

lemma on_message_eq:
  "on_message msg w =
   w\<lparr>leds := map Not (leds w), trace := trace w @ map Toggle [0..<length (leds w)]\<rparr>"
  by (simp add: on_message_def toggle_prefix)

lemma dispatch_trace:
  "\<exists>ks. trace (dispatch p w) = trace w @ map Toggle ks \<and> loops (dispatch p w) = loops w
     \<and> slots (dispatch p w) = slots w \<and> reads (dispatch p w) = reads w
     \<and> timer_calls (dispatch p w) = timer_calls w"
proof (cases "slots w (slot_of p)")
  case None
  then have "dispatch p w = w" by (simp add: dispatch_def)
  then show ?thesis by (intro exI [of _ "[]"]) simp
next
  case (Some f)
  show ?thesis
  proof (cases "\<exists>msg. f = Fn_on_message \<and> p = Incoming msg")
    case True
    then obtain msg where "f = Fn_on_message" "p = Incoming msg" by blast
    with Some have "dispatch p w = on_message msg w" by (simp add: dispatch_def)
    then show ?thesis
      by (intro exI [of _ "[0..<length (leds w)]"]) (simp add: on_message_eq)
  next
    case False
    with Some have "dispatch p w = w"
      by (cases f; cases p) (simp_all add: dispatch_def on_subscribe_def on_connect_def on_publish_def)
    then show ?thesis by (intro exI [of _ "[]"]) simp
  qed
qed

lemma dispatch_all_trace:
  "\<exists>ks. trace (foldl (\<lambda>w' p. dispatch p w') w ps) = trace w @ map Toggle ks
     \<and> loops (foldl (\<lambda>w' p. dispatch p w') w ps) = loops w
     \<and> slots (foldl (\<lambda>w' p. dispatch p w') w ps) = slots w
     \<and> reads (foldl (\<lambda>w' p. dispatch p w') w ps) = reads w
     \<and> timer_calls (foldl (\<lambda>w' p. dispatch p w') w ps) = timer_calls w"
proof (induction ps arbitrary: w)
  case Nil
  show ?case by (intro exI [of _ "[]"]) simp
next
  case (Cons p ps)
  obtain ks1 where 1: "trace (dispatch p w) = trace w @ map Toggle ks1"
      "loops (dispatch p w) = loops w" "slots (dispatch p w) = slots w"
      "reads (dispatch p w) = reads w" "timer_calls (dispatch p w) = timer_calls w"
    using dispatch_trace [of p w] by blast
  let ?w' = "foldl (\<lambda>w' p. dispatch p w') (dispatch p w) ps"
  obtain ks2 where 2: "trace ?w' = trace (dispatch p w) @ map Toggle ks2"
      "loops ?w' = loops (dispatch p w)" "slots ?w' = slots (dispatch p w)"
      "reads ?w' = reads (dispatch p w)" "timer_calls ?w' = timer_calls (dispatch p w)"
    using Cons.IH [of "dispatch p w"] by blast
  show ?case
    by (intro exI [of _ "ks1 @ ks2"]) (simp add: 1 2)
qed

lemma client_loop_trace:
  "\<exists>ks. trace (client_loop e t w) = trace w @ Loop t # map Toggle ks
     \<and> loops (client_loop e t w) = Suc (loops w)
     \<and> slots (client_loop e t w) = slots w
     \<and> reads (client_loop e t w) = reads w
     \<and> timer_calls (client_loop e t w) = timer_calls w"
  using dispatch_all_trace
    [of "w\<lparr>loops := Suc (loops w), trace := trace w @ [Loop t]\<rparr>" "inbox e (loops w)"]
  by (auto simp: client_loop_def)

lemma client_loop_fields [simp]:
  "loops (client_loop e t w) = Suc (loops w)"
  "slots (client_loop e t w) = slots w"
  "reads (client_loop e t w) = reads w"
  "timer_calls (client_loop e t w) = timer_calls w"
  using client_loop_trace [of e t w] by auto

lemma client_loop_emits:
  "\<exists>evs. trace (client_loop e t w) = trace w @ evs \<and> publishes evs = []
     \<and> loop_calls evs = [t] \<and> button_reads evs = []"
proof -
  obtain ks where "trace (client_loop e t w) = trace w @ Loop t # map Toggle ks"
    using client_loop_trace [of e t w] by blast
  then show ?thesis
    by (intro exI [of _ "Loop t # map Toggle ks"]) simp
qed

text \<open>The busy-wait \<^verbatim>\<open>for _ in xs: client.loop(timeout=t)\<close>.\<close>

lemma pump_emits:
  "\<exists>evs. trace (foldl (\<lambda>w' _. client_loop e t w') w xs) = trace w @ evs
     \<and> publishes evs = [] \<and> loop_calls evs = replicate (length xs) t \<and> button_reads evs = []
     \<and> loops (foldl (\<lambda>w' _. client_loop e t w') w xs) = loops w + length xs
     \<and> slots (foldl (\<lambda>w' _. client_loop e t w') w xs) = slots w
     \<and> reads (foldl (\<lambda>w' _. client_loop e t w') w xs) = reads w
     \<and> timer_calls (foldl (\<lambda>w' _. client_loop e t w') w xs) = timer_calls w"
proof (induction xs arbitrary: w)
  case Nil
  show ?case by (intro exI [of _ "[]"]) simp
next
  case (Cons x xs)
  obtain evs1 where 1: "trace (client_loop e t w) = trace w @ evs1" "publishes evs1 = []"
      "loop_calls evs1 = [t]" "button_reads evs1 = []"
    using client_loop_emits [of e t w] by blast
  let ?w' = "foldl (\<lambda>w' _. client_loop e t w') (client_loop e t w) xs"
  obtain evs2 where 2: "trace ?w' = trace (client_loop e t w) @ evs2" "publishes evs2 = []"
      "loop_calls evs2 = replicate (length xs) t" "button_reads evs2 = []"
      "loops ?w' = loops (client_loop e t w) + length xs" "slots ?w' = slots (client_loop e t w)"
      "reads ?w' = reads (client_loop e t w)" "timer_calls ?w' = timer_calls (client_loop e t w)"
    using Cons.IH [of "client_loop e t w"] by blast
  show ?case
    by (intro exI [of _ "evs1 @ evs2"]) (simp add: 1 2)
qed

lemma cell7_emits:
  "\<exists>evs. trace (cell7 e w) = trace w @ Connect ''localhost'' 1883 # evs
     \<and> publishes evs = [] \<and> loop_calls evs = replicate 10 0.1 \<and> button_reads evs = []
     \<and> loops (cell7 e w) = loops w + 10 \<and> slots (cell7 e w) = slots w
     \<and> reads (cell7 e w) = reads w \<and> timer_calls (cell7 e w) = timer_calls w"
  using pump_emits [of e "0.1" "client_connect ''localhost'' 1883 w" "[0..<10]"]
  by (auto simp: cell7_def client_connect_def)

lemma cell12_emits:
  "\<exists>evs. trace (cell12 e w) = trace w @ Subscribe ''button/#'' # evs
     \<and> publishes evs = [] \<and> loop_calls evs = replicate 10 0.1 \<and> button_reads evs = []
     \<and> loops (cell12 e w) = loops w + 10 \<and> slots (cell12 e w) = slots w
     \<and> reads (cell12 e w) = reads w \<and> timer_calls (cell12 e w) = timer_calls w"
  using pump_emits [of e "0.1" "client_subscribe ''button/#'' w" "[0..<10]"]
  by (auto simp: cell12_def client_subscribe_def)

subsection \<open>Strings\<close>

lemma str_nat_small:
  "str_nat 0 = ''0''" "str_nat (Suc 0) = ''1''" "str_nat (Suc (Suc 0)) = ''2''"
  by (simp_all add: str_nat.simps digit_char_def)

lemma digit_char_in: "d < 10 \<Longrightarrow> digit_char d \<in> set ''0123456789''"
  unfolding digit_char_def by (rule nth_mem) simp

lemma str_nat_last: "str_nat n \<noteq> [] \<and> last (str_nat n) = digit_char (n mod 10)"
  by (simp add: str_nat.simps [of n])

lemma str_int_last: "last (str_int i) \<in> set ''0123456789''"
  using digit_char_in [of "nat i mod 10"] digit_char_in [of "nat (- i) mod 10"]
  by (simp add: str_int_def str_nat_last)

lemma str_int_not_offline: "str_int i \<noteq> ''offline''"
proof
  assume "str_int i = ''offline''"
  then have "last (str_int i) = CHR ''e''" by simp
  with str_int_last [of i] show False by simp
qed

lemma button_topics_eq: "button_topics = [''button/0'', ''button/1'', ''button/2'']"
  by (simp add: button_topics_def upt_rec str_nat_small)

subsection \<open>One iteration of the polling loop\<close>

lemma upt_0_3: "[0..<3] = [0, Suc 0, Suc (Suc 0)]"
  by (simp add: upt_rec)

lemma read_buttons_3:
  "read_buttons e [0..<3] w =
     (sampled e (reads w), w\<lparr>reads := reads w + 3, trace := trace w @ map Read [0..<3]\<rparr>)"
  by (simp add: upt_0_3 sampled_def read_btn_def)

lemma length_sampled [simp]: "length (sampled e r) = 3"
  by (simp add: sampled_def)

lemma length_3E:
  assumes "length xs = 3"
  obtains a b c where "xs = [a, b, c]"
  using assms by (auto simp: length_Suc_conv numeral_3_eq_3)

lemma changed_list_3:
  "length cur = 3 \<Longrightarrow> length old = 3 \<Longrightarrow>
   changed_list cur old [0..<3] = Inr (map (\<lambda>index. cur ! index \<noteq> old ! index) [0..<3])"
  by (erule length_3E, erule length_3E) (simp add: upt_0_3 getitem_def)

lemma publish_changes_3:
  "length cur = 3 \<Longrightarrow> length old = 3 \<Longrightarrow>
   publish_changes cur (map (\<lambda>index. cur ! index \<noteq> old ! index) [0..<3]) [0..<3] w =
     (None, w\<lparr>trace := trace w @ change_events cur old\<rparr>)"
  by (erule length_3E, erule length_3E)
     (simp add: upt_0_3 getitem_def change_events_def client_publish_def)

lemma poll_body_3:
  assumes "length (last_v s) = 3"
  shows "poll_body e s =
     (None, s\<lparr>last_v := sampled e (reads (pworld s)),
              current := Some (sampled e (reads (pworld s))),
              pworld := client_loop e 0.001
                 ((pworld s)\<lparr>reads := reads (pworld s) + 3,
                    trace := trace (pworld s) @ map Read [0..<3]
                       @ change_events (sampled e (reads (pworld s))) (last_v s)\<rparr>)\<rparr>)"
  using assms
  by (simp add: poll_body_def read_buttons_3 changed_list_3 publish_changes_3)

lemma button_reads_Read [simp]: "button_reads (map Read ks) = ks"
  by (induction ks) auto

lemma publishes_Read [simp]: "publishes (map Read ks) = []"
  by (induction ks) auto

lemma loop_calls_Read [simp]: "loop_calls (map Read ks) = []"
  by (induction ks) auto

lemma change_events_reads [simp]:
  "button_reads (change_events cur old) = []" "loop_calls (change_events cur old) = []"
  by (simp_all add: change_events_def upt_0_3)

lemma change_events_topics:
  "set (map fst (publishes (change_events cur old))) \<subseteq> set button_topics"
  by (simp add: change_events_def upt_0_3 button_topics_eq str_nat_small)

lemma change_events_payloads:
  "''offline'' \<notin> snd ` set (publishes (change_events cur old))"
  by (simp add: change_events_def upt_0_3 str_int_not_offline [symmetric])

lemma change_events_on:
  "index < 3 \<Longrightarrow>
   published_on (''button/'' @ str_nat index) (change_events cur old) =
     (if cur ! index \<noteq> old ! index
      then [(''button/'' @ str_nat index, str_int (cur ! index))] else [])"
proof -
  assume "index < 3"
  then consider "index = 0" | "index = Suc 0" | "index = Suc (Suc 0)"
    by linarith
  then show ?thesis
    by cases (simp_all add: published_on_def change_events_def upt_0_3 str_nat_small)
qed

lemma poll_body_emits:
  assumes "length (last_v s) = 3"
  shows "\<exists>evs. trace (pworld (snd (poll_body e s))) =
            trace (pworld s) @ map Read [0..<3]
              @ change_events (sampled e (reads (pworld s))) (last_v s) @ evs
     \<and> publishes evs = [] \<and> loop_calls evs = [0.001] \<and> button_reads evs = []
     \<and> fst (poll_body e s) = None
     \<and> last_v (snd (poll_body e s)) = sampled e (reads (pworld s))
     \<and> current (snd (poll_body e s)) = Some (sampled e (reads (pworld s)))
     \<and> reads (pworld (snd (poll_body e s))) = reads (pworld s) + 3
     \<and> loops (pworld (snd (poll_body e s))) = Suc (loops (pworld s))
     \<and> slots (pworld (snd (poll_body e s))) = slots (pworld s)
     \<and> timer_calls (pworld (snd (poll_body e s))) = timer_calls (pworld s)"
proof -
  let ?w = "(pworld s)\<lparr>reads := reads (pworld s) + 3,
      trace := trace (pworld s) @ map Read [0..<3]
         @ change_events (sampled e (reads (pworld s))) (last_v s)\<rparr>"
  obtain evs where "trace (client_loop e 0.001 ?w) = trace ?w @ evs" "publishes evs = []"
      "loop_calls evs = [0.001]" "button_reads evs = []"
    using client_loop_emits [of e "0.001" ?w] by blast
  then show ?thesis
    by (intro exI [of _ evs]) (simp add: poll_body_3 [OF assms])
qed

subsection \<open>The polling loop\<close>

lemma poll_loop_exit_step:
  "btn e (reads (pworld s)) 3 \<noteq> 0 \<Longrightarrow>
   poll_loop (Suc fuel) e s =
     (Exited, s\<lparr>pworld := (pworld s)\<lparr>reads := Suc (reads (pworld s)),
                                       trace := trace (pworld s) @ [Read 3]\<rparr>\<rparr>)"
  by (simp add: read_btn_def)

lemma poll_loop_continue_step:
  assumes "btn e (reads (pworld s)) 3 = 0" "length (last_v s) = 3"
  shows "poll_loop (Suc fuel) e s =
     poll_loop fuel e
       (snd (poll_body e (s\<lparr>pworld := (pworld s)\<lparr>reads := Suc (reads (pworld s)),
                                       trace := trace (pworld s) @ [Read 3]\<rparr>\<rparr>)))"
proof -
  let ?s1 = "s\<lparr>pworld := (pworld s)\<lparr>reads := Suc (reads (pworld s)),
                                    trace := trace (pworld s) @ [Read 3]\<rparr>\<rparr>"
  have "length (last_v ?s1) = 3" using assms(2) by simp
  then have "fst (poll_body e ?s1) = None"
    using poll_body_emits [of ?s1 e] by blast
  then obtain s2 where "poll_body e ?s1 = (None, s2)"
    by (cases "poll_body e ?s1") simp
  then show ?thesis
    using assms(1) by (simp add: read_btn_def)
qed

lemma count_reads_3 [simp]: "count_list (button_reads (map Read [0..<3])) 3 = 0"
  by (simp add: upt_0_3)

lemma poll_loop_inv:
  assumes "length (last_v s) = 3"
  shows "\<exists>evs. trace (pworld (snd (poll_loop fuel e s))) = trace (pworld s) @ evs
     \<and> set (map fst (publishes evs)) \<subseteq> set button_topics
     \<and> ''offline'' \<notin> snd ` set (publishes evs)
     \<and> count_list (button_reads evs) 3
         = length (loop_calls evs) + (if fst (poll_loop fuel e s) = Exited then 1 else 0)
     \<and> length (last_v (snd (poll_loop fuel e s))) = 3
     \<and> (fst (poll_loop fuel e s) = Running \<or> fst (poll_loop fuel e s) = Exited)
     \<and> slots (pworld (snd (poll_loop fuel e s))) = slots (pworld s)
     \<and> timer_calls (pworld (snd (poll_loop fuel e s))) = timer_calls (pworld s)
     \<and> (current (snd (poll_loop fuel e s)) = current s
          \<and> last_v (snd (poll_loop fuel e s)) = last_v s
          \<and> publishes evs = [] \<and> loop_calls evs = []
        \<or> current (snd (poll_loop fuel e s)) = Some (last_v (snd (poll_loop fuel e s))))"
  using assms
proof (induction fuel arbitrary: s)
  case 0
  then show ?case by (intro exI [of _ "[]"]) simp
next
  case (Suc fuel)
  let ?s1 = "s\<lparr>pworld := (pworld s)\<lparr>reads := Suc (reads (pworld s)),
                                    trace := trace (pworld s) @ [Read 3]\<rparr>\<rparr>"
  show ?case
  proof (cases "btn e (reads (pworld s)) 3 = 0")
    case False
    show ?thesis
      using Suc.prems
      by (intro exI [of _ "[Read 3]"]) (simp add: poll_loop_exit_step [OF False] del: poll_loop.simps)
  next
    case True
    let ?s2 = "snd (poll_body e ?s1)"
    let ?r = "poll_loop fuel e ?s2"
    have len1: "length (last_v ?s1) = 3" using Suc.prems by simp
    obtain evsB where B:
      "trace (pworld ?s2) = trace (pworld ?s1) @ map Read [0..<3]
          @ change_events (sampled e (reads (pworld ?s1))) (last_v ?s1) @ evsB"
      "publishes evsB = []" "loop_calls evsB = [0.001]" "button_reads evsB = []"
      "last_v ?s2 = sampled e (reads (pworld ?s1))"
      "current ?s2 = Some (sampled e (reads (pworld ?s1)))"
      "slots (pworld ?s2) = slots (pworld ?s1)"
      "timer_calls (pworld ?s2) = timer_calls (pworld ?s1)"
      using poll_body_emits [OF len1, of e] by blast
    have len2: "length (last_v ?s2) = 3" by (simp add: B(5))
    obtain evsL where L:
      "trace (pworld (snd ?r)) = trace (pworld ?s2) @ evsL"
      "set (map fst (publishes evsL)) \<subseteq> set button_topics"
      "''offline'' \<notin> snd ` set (publishes evsL)"
      "count_list (button_reads evsL) 3
         = length (loop_calls evsL) + (if fst ?r = Exited then 1 else 0)"
      "length (last_v (snd ?r)) = 3"
      "fst ?r = Running \<or> fst ?r = Exited"
      "slots (pworld (snd ?r)) = slots (pworld ?s2)"
      "timer_calls (pworld (snd ?r)) = timer_calls (pworld ?s2)"
      "current (snd ?r) = current ?s2 \<and> last_v (snd ?r) = last_v ?s2
          \<and> publishes evsL = [] \<and> loop_calls evsL = []
        \<or> current (snd ?r) = Some (last_v (snd ?r))"
      using Suc.IH [OF len2] by blast
    have step: "poll_loop (Suc fuel) e s = ?r"
      by (rule poll_loop_continue_step [OF True Suc.prems])
    let ?evs = "Read 3 # map Read [0..<3]
          @ change_events (sampled e (reads (pworld ?s1))) (last_v ?s1) @ evsB @ evsL"
    have tr: "trace (pworld (snd ?r)) = trace (pworld s) @ ?evs"
      by (simp add: L(1) B(1))
    have cur: "current (snd ?r) = Some (last_v (snd ?r))"
      using L(9) B(5,6) by auto
    have topics: "set (map fst (publishes ?evs)) \<subseteq> set button_topics"
      using L(2) change_events_topics [of "sampled e (reads (pworld ?s1))" "last_v ?s1"]
      by (simp add: B(2))
    have payloads: "''offline'' \<notin> snd ` set (publishes ?evs)"
      using L(3) change_events_payloads [of "sampled e (reads (pworld ?s1))" "last_v ?s1"]
      by (simp add: B(2) image_Un)
    have cnt: "count_list (button_reads ?evs) 3
         = length (loop_calls ?evs) + (if fst ?r = Exited then 1 else 0)"
      using L(4) by (simp add: B(3,4))
    show ?thesis
      unfolding step
      using tr topics payloads cnt cur L(5,6,7,8) B(7,8)
      by (intro exI [of _ ?evs]) simp
  qed
qed

text \<open>The loop leaves at the first check that reads non-zero, and not before.\<close>

lemma poll_loop_exits:
  assumes "length (last_v s) = 3"
    and "\<forall>k<n. btn e (reads (pworld s) + 4 * k) 3 = 0"
    and "btn e (reads (pworld s) + 4 * n) 3 \<noteq> 0"
    and "n < fuel"
  shows "fst (poll_loop fuel e s) = Exited
     \<and> reads (pworld (snd (poll_loop fuel e s))) = reads (pworld s) + 4 * n + 1
     \<and> loops (pworld (snd (poll_loop fuel e s))) = loops (pworld s) + n
     \<and> current (snd (poll_loop fuel e s))
         = (if n = 0 then current s else Some (last_v (snd (poll_loop fuel e s))))"
  using assms
proof (induction n arbitrary: s fuel)
  case 0
  then obtain f where f: "fuel = Suc f" by (cases fuel) auto
  from 0 have "btn e (reads (pworld s)) 3 \<noteq> 0" by simp
  then show ?case
    unfolding f by (simp add: poll_loop_exit_step del: poll_loop.simps)
next
  case (Suc n)
  then obtain f where f: "fuel = Suc f" "n < f" by (cases fuel) auto
  let ?s1 = "s\<lparr>pworld := (pworld s)\<lparr>reads := Suc (reads (pworld s)),
                                    trace := trace (pworld s) @ [Read 3]\<rparr>\<rparr>"
  let ?s2 = "snd (poll_body e ?s1)"
  from Suc.prems(2) have zero: "btn e (reads (pworld s)) 3 = 0"
    by (metis add.right_neutral mult_0_right zero_less_Suc)
  have step: "poll_loop fuel e s = poll_loop f e ?s2"
    unfolding f by (rule poll_loop_continue_step [OF zero Suc.prems(1)])
  have len1: "length (last_v ?s1) = 3" using Suc.prems(1) by simp
  have B: "last_v ?s2 = sampled e (reads (pworld ?s1))"
      "current ?s2 = Some (sampled e (reads (pworld ?s1)))"
      "reads (pworld ?s2) = reads (pworld ?s1) + 3"
      "loops (pworld ?s2) = Suc (loops (pworld ?s1))"
    using poll_body_emits [OF len1, of e] by blast+
  have r2: "reads (pworld ?s2) = reads (pworld s) + 4" by (simp add: B(3))
  have len2: "length (last_v ?s2) = 3" by (simp add: B(1))
  have a: "\<forall>k<n. btn e (reads (pworld ?s2) + 4 * k) 3 = 0"
  proof (intro allI impI)
    fix k assume "k < n"
    then have "Suc k < Suc n" by simp
    then have "btn e (reads (pworld s) + 4 * Suc k) 3 = 0"
      using Suc.prems(2) by blast
    then show "btn e (reads (pworld ?s2) + 4 * k) 3 = 0"
      by (simp add: r2 add.assoc)
  qed
  have b: "btn e (reads (pworld ?s2) + 4 * n) 3 \<noteq> 0"
    using Suc.prems(3) by (simp add: r2 add.assoc)
  have IH: "fst (poll_loop f e ?s2) = Exited
     \<and> reads (pworld (snd (poll_loop f e ?s2))) = reads (pworld ?s2) + 4 * n + 1
     \<and> loops (pworld (snd (poll_loop f e ?s2))) = loops (pworld ?s2) + n
     \<and> current (snd (poll_loop f e ?s2))
         = (if n = 0 then current ?s2 else Some (last_v (snd (poll_loop f e ?s2))))"
    by (rule Suc.IH [OF len2 a b f(2)])
  have keep: "n = 0 \<Longrightarrow> last_v (snd (poll_loop f e ?s2)) = last_v ?s2"
  proof -
    assume "n = 0"
    with b have nz: "btn e (reads (pworld ?s2)) 3 \<noteq> 0" by simp
    obtain f' where "f = Suc f'" using f(2) by (cases f) auto
    then show ?thesis
      by (simp add: poll_loop_exit_step [OF nz] del: poll_loop.simps)
  qed
  show ?case
    unfolding step using IH keep B
    by (auto simp: r2)
qed

lemma poll_loop_running:
  assumes "length (last_v s) = 3"
    and "\<forall>k<fuel. btn e (reads (pworld s) + 4 * k) 3 = 0"
  shows "fst (poll_loop fuel e s) = Running
     \<and> loops (pworld (snd (poll_loop fuel e s))) = loops (pworld s) + fuel"
  using assms
proof (induction fuel arbitrary: s)
  case 0
  show ?case by simp
next
  case (Suc fuel)
  let ?s1 = "s\<lparr>pworld := (pworld s)\<lparr>reads := Suc (reads (pworld s)),
                                    trace := trace (pworld s) @ [Read 3]\<rparr>\<rparr>"
  let ?s2 = "snd (poll_body e ?s1)"
  from Suc.prems(2) have zero: "btn e (reads (pworld s)) 3 = 0"
    by (metis add.right_neutral mult_0_right zero_less_Suc)
  have step: "poll_loop (Suc fuel) e s = poll_loop fuel e ?s2"
    by (rule poll_loop_continue_step [OF zero Suc.prems(1)])
  have len1: "length (last_v ?s1) = 3" using Suc.prems(1) by simp
  have B: "last_v ?s2 = sampled e (reads (pworld ?s1))"
      "reads (pworld ?s2) = reads (pworld ?s1) + 3"
      "loops (pworld ?s2) = Suc (loops (pworld ?s1))"
    using poll_body_emits [OF len1, of e] by blast+
  have r2: "reads (pworld ?s2) = reads (pworld s) + 4" by (simp add: B(2))
  have len2: "length (last_v ?s2) = 3" by (simp add: B(1))
  have a: "\<forall>k<fuel. btn e (reads (pworld ?s2) + 4 * k) 3 = 0"
  proof (intro allI impI)
    fix k assume "k < fuel"
    then have "Suc k < Suc fuel" by simp
    then have "btn e (reads (pworld s) + 4 * Suc k) 3 = 0"
      using Suc.prems(2) by blast
    then show "btn e (reads (pworld ?s2) + 4 * k) 3 = 0"
      by (simp add: r2 add.assoc)
  qed
  show ?case
    unfolding step using Suc.IH [OF len2 a] B(3) by simp
qed

subsection \<open>Cell 14 as a whole\<close>

lemma poll_init_eq:
  "poll_init e w =
     \<lparr>last_v = sampled e (reads w), current = None,
      pworld = w\<lparr>reads := reads w + 3, trace := trace w @ map Read [0..<3]\<rparr>\<rparr>"
  by (simp add: poll_init_def read_buttons_3)

lemma publish_offline_3:
  "publish_offline [0..<3] w =
     w\<lparr>trace := trace w @ map (\<lambda>t. Publish t ''offline'') button_topics\<rparr>"
  by (simp add: upt_0_3 button_topics_eq str_nat_small client_publish_def)

lemma publishes_offline [simp]:
  "publishes (map (\<lambda>t. Publish t ''offline'') ts) = map (\<lambda>t. (t, ''offline'')) ts"
  by (induction ts) auto

lemma loop_calls_offline [simp]: "loop_calls (map (\<lambda>t. Publish t ''offline'') ts) = []"
  by (induction ts) auto

lemma button_reads_offline [simp]: "button_reads (map (\<lambda>t. Publish t ''offline'') ts) = []"
  by (induction ts) auto

lemma cell14_emits:
  "\<exists>evs. trace (pworld (snd (cell14 fuel e w))) = trace w @ evs
     \<and> set (map fst (publishes evs)) \<subseteq> set button_topics
     \<and> count_list (button_reads evs) 3
         = length (loop_calls evs) + (if fst (cell14 fuel e w) = Running then 0 else 1)
     \<and> length (last_v (snd (cell14 fuel e w))) = 3
     \<and> (fst (cell14 fuel e w) = Running \<or> fst (cell14 fuel e w) = Exited
          \<or> fst (cell14 fuel e w) = Raised NameError)
     \<and> (case current (snd (cell14 fuel e w)) of
           None \<Rightarrow> last_v (snd (cell14 fuel e w)) = last_v (poll_init e w)
         | Some cur \<Rightarrow> last_v (snd (cell14 fuel e w)) = cur)
     \<and> slots (pworld (snd (cell14 fuel e w))) = slots w
     \<and> timer_calls (pworld (snd (cell14 fuel e w))) = timer_calls w"
proof -
  let ?s0 = "poll_init e w"
  let ?r = "poll_loop fuel e ?s0"
  have len0: "length (last_v ?s0) = 3" by (simp add: poll_init_eq)
  obtain evs where L:
      "trace (pworld (snd ?r)) = trace (pworld ?s0) @ evs"
      "set (map fst (publishes evs)) \<subseteq> set button_topics"
      "count_list (button_reads evs) 3
         = length (loop_calls evs) + (if fst ?r = Exited then 1 else 0)"
      "length (last_v (snd ?r)) = 3"
      "fst ?r = Running \<or> fst ?r = Exited"
      "slots (pworld (snd ?r)) = slots (pworld ?s0)"
      "timer_calls (pworld (snd ?r)) = timer_calls (pworld ?s0)"
      "current (snd ?r) = current ?s0 \<and> last_v (snd ?r) = last_v ?s0
          \<and> publishes evs = [] \<and> loop_calls evs = []
        \<or> current (snd ?r) = Some (last_v (snd ?r))"
    using poll_loop_inv [OF len0, of fuel e] by blast
  obtain st s' where r: "?r = (st, s')" by (cases ?r)
  have tr0: "trace (pworld s') = trace w @ map Read [0..<3] @ evs"
    using L(1) r by (simp add: poll_init_eq)
  have cur0: "current ?s0 = None" by (simp add: poll_init_eq)
  from L(5) r consider "st = Running" | "st = Exited" "current s' = None"
    | cur where "st = Exited" "current s' = Some cur"
    by (cases "current s'") auto
  then show ?thesis
  proof cases
    case 1
    then have c: "cell14 fuel e w = (Running, s')" by (simp add: cell14_def r)
    show ?thesis
      unfolding c using tr0 L r 1 cur0
      by (intro exI [of _ "map Read [0..<3] @ evs"])
         (auto simp: poll_init_eq split: option.splits)
  next
    case 2
    then have c: "cell14 fuel e w = (Raised NameError, s')" by (simp add: cell14_def r)
    show ?thesis
      unfolding c using tr0 L r 2 cur0
      by (intro exI [of _ "map Read [0..<3] @ evs"])
         (auto simp: poll_init_eq split: option.splits)
  next
    case 3
    then have c: "cell14 fuel e w
        = (Exited, s'\<lparr>pworld := publish_offline [0..<3] (pworld s')\<rparr>)"
      by (simp add: cell14_def r)
    show ?thesis
      unfolding c using tr0 L r 3 cur0
      by (intro exI [of _ "map Read [0..<3] @ evs @ map (\<lambda>t. Publish t ''offline'') button_topics"])
         (auto simp: poll_init_eq publish_offline_3 comp_def split: option.splits)
  qed
qed

lemma cell14_raises_at_once:
  assumes "btn e (reads w + 3) 3 \<noteq> 0"
  shows "cell14 (Suc fuel) e w =
     (Raised NameError,
      \<lparr>last_v = sampled e (reads w), current = None,
       pworld = w\<lparr>reads := reads w + 4, trace := trace w @ map Read [0..<3] @ [Read 3]\<rparr>\<rparr>)"
proof -
  have "btn e (reads (pworld (poll_init e w))) 3 \<noteq> 0"
    using assms by (simp add: poll_init_eq)
  then show ?thesis
    by (simp add: cell14_def poll_loop_exit_step poll_init_eq del: poll_loop.simps)
qed

lemma cell14_exits_after:
  assumes "\<forall>k<n. btn e (reads w + 3 + 4 * k) 3 = 0"
    and "btn e (reads w + 3 + 4 * n) 3 \<noteq> 0"
    and "n < fuel" and "0 < n"
  shows "fst (cell14 fuel e w) = Exited
     \<and> loops (pworld (snd (cell14 fuel e w))) = loops w + n
     \<and> (\<exists>evs. emitted w (pworld (snd (cell14 fuel e w)))
                 = evs @ map (\<lambda>t. Publish t ''offline'') button_topics
             \<and> ''offline'' \<notin> snd ` set (publishes evs))"
proof -
  let ?s0 = "poll_init e w"
  let ?r = "poll_loop fuel e ?s0"
  have len0: "length (last_v ?s0) = 3" by (simp add: poll_init_eq)
  have r0: "reads (pworld ?s0) = reads w + 3" by (simp add: poll_init_eq)
  have E: "fst ?r = Exited" "loops (pworld (snd ?r)) = loops (pworld ?s0) + n"
      "current (snd ?r) = Some (last_v (snd ?r))"
    using poll_loop_exits [OF len0, of n e fuel] assms by (simp_all add: r0)
  obtain evs where L: "trace (pworld (snd ?r)) = trace (pworld ?s0) @ evs"
      "''offline'' \<notin> snd ` set (publishes evs)"
    using poll_loop_inv [OF len0, of fuel e] by blast
  obtain s' where r: "?r = (Exited, s')" using E(1) by (cases ?r) auto
  have c: "cell14 fuel e w = (Exited, s'\<lparr>pworld := publish_offline [0..<3] (pworld s')\<rparr>)"
    using E(3) by (simp add: cell14_def r)
  have tr: "trace (pworld (snd (cell14 fuel e w)))
      = trace w @ (map Read [0..<3] @ evs) @ map (\<lambda>t. Publish t ''offline'') button_topics"
    using L(1) r by (simp add: c publish_offline_3 poll_init_eq)
  have "emitted w (pworld (snd (cell14 fuel e w)))
      = (map Read [0..<3] @ evs) @ map (\<lambda>t. Publish t ''offline'') button_topics"
    by (rule emittedI [OF tr])
  moreover have "''offline'' \<notin> snd ` set (publishes (map Read [0..<3] @ evs))"
    using L(2) by simp
  moreover have "loops (pworld (snd (cell14 fuel e w))) = loops w + n"
    using E(2) r by (simp add: c publish_offline_3 poll_init_eq)
  ultimately show ?thesis
    using c by auto
qed

subsection \<open>The timing loop\<close>

lemma bench_loop_upt:
  assumes "n \<le> length (time_records b)" and "k \<le> n"
    and "timer_calls (bworld b) = c + 2 * k"
  shows "bench_loop e [k..<n] b =
     (None,
      b\<lparr>time_records := take k (time_records b) @ map (elapsed_sample e c) [k..<n]
                          @ drop n (time_records b),
        total_time := total_time b + sum_list (map (elapsed_sample e c) [k..<n]),
        bworld := (bworld b)\<lparr>timer_calls := c + 2 * n,
                     trace := trace (bworld b) @ replicate (n - k) (Publish ''foo'' ''bar'')\<rparr>\<rparr>)"
  using assms
proof (induction "n - k" arbitrary: k b)
  case 0
  then have "k = n" by simp
  with 0 show ?case by simp
next
  case (Suc m)
  then have kn: "k < n" by simp
  let ?el = "elapsed_sample e c k"
  let ?w3 = "(bworld b)\<lparr>trace := trace (bworld b) @ [Publish ''foo'' ''bar''],
                 timer_calls := c + 2 * Suc k\<rparr>"
  let ?b' = "b\<lparr>time_records := (time_records b)[k := ?el],
               total_time := total_time b + ?el, bworld := ?w3\<rparr>"
  have step: "bench_loop e [k..<n] b = bench_loop e [Suc k..<n] ?b'"
    using kn Suc.prems(1,3)
    by (simp add: upt_conv_Cons default_timer_def client_publish_def elapsed_sample_def Let_def)
  have IH: "bench_loop e [Suc k..<n] ?b' =
     (None,
      ?b'\<lparr>time_records := take (Suc k) (time_records ?b') @ map (elapsed_sample e c) [Suc k..<n]
                          @ drop n (time_records ?b'),
        total_time := total_time ?b' + sum_list (map (elapsed_sample e c) [Suc k..<n]),
        bworld := (bworld ?b')\<lparr>timer_calls := c + 2 * n,
                     trace := trace (bworld ?b') @ replicate (n - Suc k) (Publish ''foo'' ''bar'')\<rparr>\<rparr>)"
    using Suc.hyps(2) Suc.prems(1) kn
    by (intro Suc.hyps(1)) simp_all
  have klen: "k < length (time_records b)" using kn Suc.prems(1) by simp
  have recs: "take (Suc k) ((time_records b)[k := ?el]) = take k (time_records b) @ [?el]"
    using klen by (simp add: take_Suc_conv_app_nth)
  have drp: "drop n ((time_records b)[k := ?el]) = drop n (time_records b)"
    using kn by simp
  have rep: "[Publish ''foo'' ''bar''] @ replicate (n - Suc k) (Publish ''foo'' ''bar'')
      = replicate (n - k) (Publish ''foo'' ''bar'')"
    using kn by (metis Suc_diff_Suc append_Cons append_Nil replicate_Suc)
  show ?case
    unfolding step IH using kn rep
    by (simp add: recs drp upt_conv_Cons [of k n])
qed

lemma cell16_eq:
  "cell16 e w =
     (py_div 100 (sum_list (map (elapsed_sample e (timer_calls w)) [0..<100])),
      \<lparr>time_records = map (elapsed_sample e (timer_calls w)) [0..<100],
       total_time = sum_list (map (elapsed_sample e (timer_calls w)) [0..<100]),
       bworld = w\<lparr>timer_calls := timer_calls w + 200,
                   trace := trace w @ replicate 100 (Publish ''foo'' ''bar'')\<rparr>\<rparr>)"
  using bench_loop_upt
    [of 100 "\<lparr>time_records = replicate 100 0, total_time = 0, bworld = w\<rparr>" 0 "timer_calls w" e]
  by (simp add: cell16_def num_records_def)

lemma publishes_foo [simp]:
  "publishes (replicate n (Publish t p)) = replicate n (t, p)"
  by (induction n) auto

lemma elapsed_nonneg: "mono (clock e) \<Longrightarrow> 0 \<le> elapsed_sample e c i"
  by (simp add: elapsed_sample_def mono_def)

subsection \<open>The notebook as a whole\<close>

lemma cell5_eq [simp]:
  "slots (cell5 w) = [OnSubscribe \<mapsto> Fn_on_subscribe, OnConnect \<mapsto> Fn_on_connect]"
  "trace (cell5 w) = trace w"
  by (simp_all add: cell5_def set_callback_def mqtt_Client_def)

lemma cell9_eq [simp]:
  "slots (cell9 w) = (slots w)(OnMessage \<mapsto> Fn_on_message)"
  "trace (cell9 w) = trace w"
  by (simp_all add: cell9_def set_callback_def)

lemma notebook_world:
  "snd (notebook fuel e w) =
     (if fst (cell14 fuel e (cell12 e (cell9 (cell7 e (cell5 w))))) = Exited
      then bworld (snd (cell16 e (pworld (snd (cell14 fuel e (cell12 e (cell9 (cell7 e (cell5 w)))))))))
      else pworld (snd (cell14 fuel e (cell12 e (cell9 (cell7 e (cell5 w)))))))"
  by (auto simp: notebook_def split: prod.splits status.splits sum.splits)

lemma notebook_emits:
  "\<exists>evs. trace (snd (notebook fuel e w)) = trace w @ evs
     \<and> set (map fst (publishes evs)) \<subseteq> set button_topics \<union> {''foo''}
     \<and> slots (snd (notebook fuel e w))
         = [OnSubscribe \<mapsto> Fn_on_subscribe, OnConnect \<mapsto> Fn_on_connect,
            OnMessage \<mapsto> Fn_on_message]"
proof -
  let ?w5 = "cell5 w"
  let ?w7 = "cell7 e ?w5"
  let ?w9 = "cell9 ?w7"
  let ?w12 = "cell12 e ?w9"
  let ?r = "cell14 fuel e ?w12"
  obtain evs7 where 7: "trace ?w7 = trace ?w5 @ Connect ''localhost'' 1883 # evs7"
      "publishes evs7 = []" "slots ?w7 = slots ?w5"
    using cell7_emits [of e ?w5] by blast
  obtain evs12 where 12: "trace ?w12 = trace ?w9 @ Subscribe ''button/#'' # evs12"
      "publishes evs12 = []" "slots ?w12 = slots ?w9"
    using cell12_emits [of e ?w9] by blast
  obtain evs14 where 14: "trace (pworld (snd ?r)) = trace ?w12 @ evs14"
      "set (map fst (publishes evs14)) \<subseteq> set button_topics"
      "slots (pworld (snd ?r)) = slots ?w12"
    using cell14_emits [of fuel e ?w12] by blast
  let ?pre = "Connect ''localhost'' 1883 # evs7 @ Subscribe ''button/#'' # evs12 @ evs14"
  have tr: "trace (pworld (snd ?r)) = trace w @ ?pre"
    by (simp add: 14(1) 12(1) 7(1))
  have sl: "slots (pworld (snd ?r))
      = [OnSubscribe \<mapsto> Fn_on_subscribe, OnConnect \<mapsto> Fn_on_connect,
         OnMessage \<mapsto> Fn_on_message]"
    by (simp add: 14(3) 12(3) 7(3))
  have pub: "set (map fst (publishes ?pre)) \<subseteq> set button_topics"
    using 14(2) by (simp add: 7(2) 12(2))
  show ?thesis
  proof (cases "fst ?r = Exited")
    case False
    then show ?thesis
      using tr sl pub
      by (intro exI [of _ ?pre]) (auto simp: notebook_world)
  next
    case True
    then show ?thesis
      using tr sl pub
      by (intro exI [of _ "?pre @ replicate 100 (Publish ''foo'' ''bar'')"])
         (auto simp: notebook_world cell16_eq)
  qed
qed

lemma topic_not_published:
  "set (map fst tps) \<subseteq> S \<Longrightarrow> t \<notin> S \<Longrightarrow> (t, p) \<notin> set tps"
  by force

section \<open>The claims\<close>

text \<open>
  C3. Cell 7 issues the connect request and then calls \<^verbatim>\<open>client.loop(timeout=.1)\<close>
  exactly ten times; cell 12 does the same after the subscribe request. This holds for
  every environment, so whatever the calls deliver (an acknowledgment or nothing), and
  both cells are total functions: each busy-wait ends after its ten calls.
\<close>

theorem busy_wait_fixed_count:
  "loops (cell7 e w) = loops w + 10 \<and>
   loop_calls (emitted w (cell7 e w)) = replicate 10 0.1 \<and>
   hd (emitted w (cell7 e w)) = Connect ''localhost'' 1883 \<and>
   loops (cell12 e w) = loops w + 10 \<and>
   loop_calls (emitted w (cell12 e w)) = replicate 10 0.1 \<and>
   hd (emitted w (cell12 e w)) = Subscribe ''button/#''"
proof -
  obtain evs where 1: "trace (cell7 e w) = trace w @ Connect ''localhost'' 1883 # evs"
      "loop_calls evs = replicate 10 0.1" "loops (cell7 e w) = loops w + 10"
    using cell7_emits [of e w] by blast
  obtain evs' where 2: "trace (cell12 e w) = trace w @ Subscribe ''button/#'' # evs'"
      "loop_calls evs' = replicate 10 0.1" "loops (cell12 e w) = loops w + 10"
    using cell12_emits [of e w] by blast
  show ?thesis
    using 1 2 by (simp add: emittedI [OF 1(1)] emittedI [OF 2(1)])
qed

theorem busy_wait_fixed_count_witness:
  "loops (cell7 press0 board) = 10 \<and>
   loop_calls (emitted board (cell7 press0 board)) = replicate 10 0.1 \<and>
   hd (emitted board (cell7 press0 board)) = Connect ''localhost'' 1883 \<and>
   loops (cell12 press0 board) = 10 \<and>
   loop_calls (emitted board (cell12 press0 board)) = replicate 10 0.1 \<and>
   hd (emitted board (cell12 press0 board)) = Subscribe ''button/#''"
  using busy_wait_fixed_count [of press0 board] by (simp add: board_def)

text \<open>
  C6. \<^verbatim>\<open>on_message\<close> calls \<^verbatim>\<open>toggle\<close> once on each LED, in the order of
  \<^verbatim>\<open>leds\<close>, and so inverts every LED, whatever the topic, the payload and the QoS of
  the message are. Once cell 9 has set the callback, this is what the delivery of a
  message by \<^verbatim>\<open>client.loop\<close> does.
\<close>

theorem on_message_toggles_every_led:
  "leds (on_message msg w) = map Not (leds w) \<and>
   emitted w (on_message msg w) = map Toggle [0..<length (leds w)] \<and>
   dispatch (Incoming msg) (cell9 w) = on_message msg (cell9 w)"
  by (simp add: on_message_eq emitted_def dispatch_def)

theorem on_message_toggles_every_led_witness:
  "leds (on_message \<lparr>topic = ''button/0'', payload = ''1'', qos = 0\<rparr> board)
     = [True, True, True, True] \<and>
   emitted board (on_message \<lparr>topic = ''button/0'', payload = ''1'', qos = 0\<rparr> board)
     = [Toggle 0, Toggle 1, Toggle 2, Toggle 3] \<and>
   leds (dispatch (Incoming \<lparr>topic = ''button/0'', payload = ''1'', qos = 0\<rparr>) (cell9 board))
     = [True, True, True, True]"
proof -
  have "leds (cell9 board) = [False, False, False, False]"
    by (simp add: cell9_def set_callback_def board_def)
  then show ?thesis
    using on_message_toggles_every_led [of "\<lparr>topic = ''button/0'', payload = ''1'', qos = 0\<rparr>" board]
      on_message_eq [of "\<lparr>topic = ''button/0'', payload = ''1'', qos = 0\<rparr>" "cell9 board"]
    by (simp add: board_def upt_rec)
qed

text \<open>
  C1. One iteration of the loop body, started with a \<^verbatim>\<open>last\<close> of three values:
  it raises nothing, and for each index 0, 1, 2 its publishes on the topic
  \<^verbatim>\<open>'button/' + str(index)\<close> are exactly one, with \<^verbatim>\<open>str\<close> of the value just
  sampled as payload, when that value differs from \<^verbatim>\<open>last[index]\<close>, and none when
  it is the same.
\<close>

theorem change_published_once:
  assumes "length (last_v s) = 3" and "index < 3"
  shows "fst (poll_body e s) = None \<and>
     current (snd (poll_body e s)) = Some (sampled e (reads (pworld s))) \<and>
     published_on (''button/'' @ str_nat index)
         (emitted (pworld s) (pworld (snd (poll_body e s))))
       = (if sampled e (reads (pworld s)) ! index \<noteq> last_v s ! index
          then [(''button/'' @ str_nat index, str_int (sampled e (reads (pworld s)) ! index))]
          else [])"
proof -
  obtain evs where B:
      "trace (pworld (snd (poll_body e s))) =
         trace (pworld s) @ map Read [0..<3]
           @ change_events (sampled e (reads (pworld s))) (last_v s) @ evs"
      "publishes evs = []" "fst (poll_body e s) = None"
      "current (snd (poll_body e s)) = Some (sampled e (reads (pworld s)))"
    using poll_body_emits [OF assms(1), of e] by blast
  have p1: "published_on (''button/'' @ str_nat index) evs = []"
    using B(2) by (simp add: published_on_def)
  have p2: "published_on (''button/'' @ str_nat index) (map Read [0..<3]) = []"
    by (simp add: published_on_def)
  show ?thesis
    by (simp only: emittedI [OF B(1)] published_on_append p1 p2 B(3,4)
          change_events_on [OF assms(2)] append_Nil append_Nil2 simp_thms)
qed

theorem change_published_once_witness:
  "length (last_v \<lparr>last_v = [0, 0, 0], current = None, pworld = board\<lparr>reads := 4\<rparr>\<rparr>) = 3 \<and>
   (0::nat) < 3 \<and>
   fst (poll_body press0 \<lparr>last_v = [0, 0, 0], current = None, pworld = board\<lparr>reads := 4\<rparr>\<rparr>)
     = None \<and>
   published_on ''button/0''
       (emitted (board\<lparr>reads := 4\<rparr>)
          (pworld (snd (poll_body press0
             \<lparr>last_v = [0, 0, 0], current = None, pworld = board\<lparr>reads := 4\<rparr>\<rparr>))))
     = [(''button/0'', ''1'')] \<and>
   published_on ''button/1''
       (emitted (board\<lparr>reads := 4\<rparr>)
          (pworld (snd (poll_body press0
             \<lparr>last_v = [0, 0, 0], current = None, pworld = board\<lparr>reads := 4\<rparr>\<rparr>))))
     = []"
  using change_published_once
    [of "\<lparr>last_v = [0, 0, 0], current = None, pworld = board\<lparr>reads := 4\<rparr>\<rparr>" 0 press0]
    change_published_once
    [of "\<lparr>last_v = [0, 0, 0], current = None, pworld = board\<lparr>reads := 4\<rparr>\<rparr>" 1 press0]
  by (simp add: sampled_def press0_def upt_0_3 str_nat_small str_int_def)

text \<open>
  C8. \<^verbatim>\<open>last\<close> has three elements when the loop starts and after any number of
  iterations, also at the end of the cell; once an iteration has run it is the list
  \<^verbatim>\<open>current\<close> of the latest one. An iteration started with three elements leaves in
  \<^verbatim>\<open>last\<close> exactly the three values it sampled.
\<close>

theorem last_length_invariant:
  "length (last_v (poll_init e w)) = 3 \<and>
   length (last_v (snd (poll_loop fuel e (poll_init e w)))) = 3 \<and>
   length (last_v (snd (cell14 fuel e w))) = 3 \<and>
   (case current (snd (cell14 fuel e w)) of
      None \<Rightarrow> last_v (snd (cell14 fuel e w)) = sampled e (reads w)
    | Some cur \<Rightarrow> last_v (snd (cell14 fuel e w)) = cur) \<and>
   (length (last_v s) = 3 \<longrightarrow>
      last_v (snd (poll_body e s)) = sampled e (reads (pworld s)) \<and>
      length (last_v (snd (poll_body e s))) = 3)"
proof -
  have len0: "length (last_v (poll_init e w)) = 3" by (simp add: poll_init_eq)
  have "length (last_v (snd (poll_loop fuel e (poll_init e w)))) = 3"
    using poll_loop_inv [OF len0, of fuel e] by blast
  moreover have "length (last_v (snd (cell14 fuel e w))) = 3 \<and>
     (case current (snd (cell14 fuel e w)) of
        None \<Rightarrow> last_v (snd (cell14 fuel e w)) = sampled e (reads w)
      | Some cur \<Rightarrow> last_v (snd (cell14 fuel e w)) = cur)"
    using cell14_emits [of fuel e w] by (auto simp: poll_init_eq split: option.splits)
  moreover have "length (last_v s) = 3 \<longrightarrow>
      last_v (snd (poll_body e s)) = sampled e (reads (pworld s)) \<and>
      length (last_v (snd (poll_body e s))) = 3"
    by (simp add: poll_body_3)
  ultimately show ?thesis
    using len0 by blast
qed

theorem last_length_invariant_witness:
  "length (last_v (poll_init press0 board)) = 3 \<and>
   length (last_v (snd (poll_loop 5 press0 (poll_init press0 board)))) = 3 \<and>
   length (last_v (snd (cell14 5 press0 board))) = 3 \<and>
   length (last_v \<lparr>last_v = [0, 0, 0], current = None, pworld = board\<lparr>reads := 4\<rparr>\<rparr>) = 3 \<and>
   last_v (snd (poll_body press0
       \<lparr>last_v = [0, 0, 0], current = None, pworld = board\<lparr>reads := 4\<rparr>\<rparr>)) = [1, 0, 0] \<and>
   length (last_v (snd (poll_body press0
       \<lparr>last_v = [0, 0, 0], current = None, pworld = board\<lparr>reads := 4\<rparr>\<rparr>))) = 3"
  using last_length_invariant
    [of press0 board 5 "\<lparr>last_v = [0, 0, 0], current = None, pworld = board\<lparr>reads := 4\<rparr>\<rparr>"]
  by (simp add: sampled_def press0_def upt_0_3)

text \<open>
  C2. The loop leaves at the first check of button 3 that reads non-zero (lemmas
  \<open>poll_loop_exits\<close> and \<open>poll_loop_running\<close>), and when at least one iteration has
  run the cell ends with the three \<^verbatim>\<open>offline\<close> publishes (lemma
  \<open>cell14_exits_after\<close>). When button 3 already reads non-zero at the first check, no
  iteration has bound \<^verbatim>\<open>current\<close>: \<^verbatim>\<open>print(current)\<close> raises
  \<^verbatim>\<open>NameError\<close> and the cell publishes nothing, so the \<^verbatim>\<open>offline\<close> messages are
  missing.
\<close>

theorem offline_missing_when_exit_is_immediate:
  assumes "btn e (reads w + 3) 3 \<noteq> 0"
  shows "fst (cell14 (Suc fuel) e w) = Raised NameError \<and>
     publishes (emitted w (pworld (snd (cell14 (Suc fuel) e w)))) = []"
  by (simp add: cell14_raises_at_once [OF assms] emitted_def)

theorem offline_missing_when_exit_is_immediate_witness:
  "btn held (reads board + 3) 3 \<noteq> 0 \<and>
   fst (cell14 (Suc 0) held board) = Raised NameError \<and>
   publishes (emitted board (pworld (snd (cell14 (Suc 0) held board)))) = []"
  using offline_missing_when_exit_is_immediate [of held board 0]
  by (simp add: held_def)

text \<open>
  C4. Under the matching the spec describes, the pattern \<^verbatim>\<open>button/#\<close> of cell 12
  matches \<^verbatim>\<open>button/0\<close>, \<^verbatim>\<open>button/1\<close> and \<^verbatim>\<open>button/2\<close>, and so the topic of
  every publish cell 14 makes, the change messages and the \<^verbatim>\<open>offline\<close> messages alike.
\<close>

theorem subscription_matches_button_topics:
  "list_all (topic_matches ''button/#'') button_topics \<and>
   list_all (\<lambda>tp. topic_matches ''button/#'' (fst tp))
     (publishes (emitted w (pworld (snd (cell14 fuel e w)))))"
proof -
  have m: "list_all (topic_matches ''button/#'') button_topics"
    by (simp add: button_topics_eq topic_matches_def segment_matches_def)
  obtain evs where E: "trace (pworld (snd (cell14 fuel e w))) = trace w @ evs"
      "set (map fst (publishes evs)) \<subseteq> set button_topics"
    using cell14_emits [of fuel e w] by blast
  have "\<forall>tp\<in>set (publishes evs). topic_matches ''button/#'' (fst tp)"
    using m E(2) by (auto simp: list_all_iff)
  then show ?thesis
    using m by (simp add: emittedI [OF E(1)] list_all_iff)
qed

theorem subscription_matches_button_topics_witness:
  "publishes (emitted board (pworld (snd (cell14 5 press0 board))))
     = [(''button/0'', ''1''), (''button/0'', ''offline''), (''button/1'', ''offline''),
        (''button/2'', ''offline'')] \<and>
   list_all (topic_matches ''button/#'') button_topics \<and>
   list_all (\<lambda>tp. topic_matches ''button/#'' (fst tp))
     (publishes (emitted board (pworld (snd (cell14 5 press0 board)))))"
proof -
  have "publishes (emitted board (pworld (snd (cell14 5 press0 board))))
     = [(''button/0'', ''1''), (''button/0'', ''offline''), (''button/1'', ''offline''),
        (''button/2'', ''offline'')]"
    by code_simp
  then show ?thesis
    using subscription_matches_button_topics [of board 5 press0] by simp
qed

text \<open>
  C5. Cell 5 sets \<^verbatim>\<open>on_subscribe\<close> and \<^verbatim>\<open>on_connect\<close> on a new client, cell 9
  sets \<^verbatim>\<open>on_message\<close>, and nothing else is ever set: at the end of the notebook the
  client holds exactly these three callbacks, each under its own name. The function
  \<^verbatim>\<open>on_publish\<close> is in no attribute, and a publish acknowledgment calls nothing.
\<close>

theorem three_callbacks_registered:
  "slots (cell5 w) = [OnSubscribe \<mapsto> Fn_on_subscribe, OnConnect \<mapsto> Fn_on_connect] \<and>
   slots (cell9 (cell7 e (cell5 w)))
     = [OnSubscribe \<mapsto> Fn_on_subscribe, OnConnect \<mapsto> Fn_on_connect,
        OnMessage \<mapsto> Fn_on_message] \<and>
   slots (snd (notebook fuel e w))
     = [OnSubscribe \<mapsto> Fn_on_subscribe, OnConnect \<mapsto> Fn_on_connect,
        OnMessage \<mapsto> Fn_on_message] \<and>
   dom (slots (snd (notebook fuel e w))) = {OnConnect, OnSubscribe, OnMessage} \<and>
   card (dom (slots (snd (notebook fuel e w)))) = 3 \<and>
   slots (snd (notebook fuel e w)) OnPublish = None \<and>
   Fn_on_publish \<notin> ran (slots (snd (notebook fuel e w))) \<and>
   dispatch PubAck (snd (notebook fuel e w)) = snd (notebook fuel e w)"
proof -
  have 7: "slots (cell7 e (cell5 w)) = slots (cell5 w)"
    using cell7_emits [of e "cell5 w"] by blast
  have n: "slots (snd (notebook fuel e w))
     = [OnSubscribe \<mapsto> Fn_on_subscribe, OnConnect \<mapsto> Fn_on_connect,
        OnMessage \<mapsto> Fn_on_message]"
    using notebook_emits [of fuel e w] by blast
  have d: "dom (slots (snd (notebook fuel e w))) = {OnConnect, OnSubscribe, OnMessage}"
    unfolding n by auto
  have r: "Fn_on_publish \<notin> ran (slots (snd (notebook fuel e w)))"
    unfolding n by (auto simp: ran_def)
  have p: "dispatch PubAck (snd (notebook fuel e w)) = snd (notebook fuel e w)"
    by (simp add: dispatch_def n)
  show ?thesis
    using r p by (simp add: 7 d) (simp add: n)
qed

theorem three_callbacks_registered_witness:
  "dom (slots (snd (notebook 5 press0 board))) = {OnConnect, OnSubscribe, OnMessage} \<and>
   card (dom (slots (snd (notebook 5 press0 board)))) = 3 \<and>
   slots (snd (notebook 5 press0 board)) OnConnect = Some Fn_on_connect \<and>
   slots (snd (notebook 5 press0 board)) OnSubscribe = Some Fn_on_subscribe \<and>
   slots (snd (notebook 5 press0 board)) OnMessage = Some Fn_on_message \<and>
   slots (snd (notebook 5 press0 board)) OnPublish = None"
  using three_callbacks_registered [of board press0 5] by (simp add: insert_commute)

text \<open>
  C7. The timing loop calls \<^verbatim>\<open>client.publish("foo", "bar")\<close> exactly 100 times and
  nothing else; \<^verbatim>\<open>time_records\<close> ends with 100 elements, the \<open>i\<close>-th being the time
  measured around the \<open>i\<close>-th call; \<^verbatim>\<open>total_time\<close> is their sum; and the value of
  \<^verbatim>\<open>num_records/total_time\<close> is 100 divided by that sum, wherever the division is
  defined.
\<close>

theorem benchmark_counts_and_average:
  "num_records = 100 \<and>
   emitted w (bworld (snd (cell16 e w))) = replicate num_records (Publish ''foo'' ''bar'') \<and>
   length (time_records (snd (cell16 e w))) = num_records \<and>
   time_records (snd (cell16 e w))
     = map (elapsed_sample e (timer_calls w)) [0..<num_records] \<and>
   total_time (snd (cell16 e w)) = sum_list (time_records (snd (cell16 e w))) \<and>
   fst (cell16 e w)
     = (if total_time (snd (cell16 e w)) = 0 then Inl ZeroDivisionError
        else Inr (real num_records / total_time (snd (cell16 e w))))"
  by (simp add: cell16_eq emitted_def py_div_def num_records_def)

theorem benchmark_counts_and_average_witness:
  "emitted board (bworld (snd (cell16 press0 board))) = replicate 100 (Publish ''foo'' ''bar'') \<and>
   length (time_records (snd (cell16 press0 board))) = 100 \<and>
   time_records (snd (cell16 press0 board)) = replicate 100 1 \<and>
   total_time (snd (cell16 press0 board)) = 100 \<and>
   fst (cell16 press0 board) = Inr 1"
proof -
  note b = benchmark_counts_and_average [of board press0]
  have n: "num_records = 100" using b by blast
  have "elapsed_sample press0 (timer_calls board) = (\<lambda>i. 1)"
    by (rule ext) (simp add: elapsed_sample_def press0_def)
  then have r: "map (elapsed_sample press0 (timer_calls board)) [0..<100]
      = replicate 100 1"
    by (simp add: map_replicate_const del: upt_Suc upt_rec_numeral)
  have 1: "emitted board (bworld (snd (cell16 press0 board)))
      = replicate 100 (Publish ''foo'' ''bar'')"
    using b unfolding n by blast
  have 2: "length (time_records (snd (cell16 press0 board))) = 100"
    using b unfolding n by blast
  have "time_records (snd (cell16 press0 board))
      = map (elapsed_sample press0 (timer_calls board)) [0..<num_records]"
    using b by blast
  then have 3: "time_records (snd (cell16 press0 board)) = replicate 100 1"
    unfolding n r .
  have "total_time (snd (cell16 press0 board))
      = sum_list (time_records (snd (cell16 press0 board)))"
    using b by blast
  then have 4: "total_time (snd (cell16 press0 board)) = 100"
    unfolding 3 sum_list_replicate by simp
  have "fst (cell16 press0 board)
     = (if total_time (snd (cell16 press0 board)) = 0 then Inl ZeroDivisionError
        else Inr (real num_records / total_time (snd (cell16 press0 board))))"
    using b by blast
  then have 5: "fst (cell16 press0 board) = Inr 1"
    unfolding 4 n by simp
  show ?thesis
    using 1 2 3 4 5 by blast
qed

text \<open>
  C9. The division \<^verbatim>\<open>num_records/total_time\<close> is not guarded: the cell raises
  \<^verbatim>\<open>ZeroDivisionError\<close> exactly when \<^verbatim>\<open>total_time\<close> is zero. With a timer that
  never runs backwards (as \<^verbatim>\<open>timeit.default_timer\<close> is), the cell yields an average
  exactly when at least one elapsed-time sample is strictly positive, and raises when
  every sample is zero.
\<close>

theorem unguarded_average_division:
  assumes "mono (clock e)"
  shows "((\<exists>speed. fst (cell16 e w) = Inr speed)
            \<longleftrightarrow> (\<exists>x\<in>set (time_records (snd (cell16 e w))). 0 < x)) \<and>
     ((\<forall>x\<in>set (time_records (snd (cell16 e w))). x = 0)
            \<longrightarrow> fst (cell16 e w) = Inl ZeroDivisionError) \<and>
     (fst (cell16 e w) = Inl ZeroDivisionError \<longleftrightarrow> total_time (snd (cell16 e w)) = 0)"
proof -
  let ?recs = "map (elapsed_sample e (timer_calls w)) [0..<100]"
  have nonneg: "\<forall>x\<in>set ?recs. 0 \<le> x"
    using elapsed_nonneg [OF assms] by auto
  have zero: "sum_list ?recs = 0 \<longleftrightarrow> (\<forall>x\<in>set ?recs. x = 0)"
    using nonneg by (intro sum_list_nonneg_eq_0_iff) blast
  have pos: "(\<exists>x\<in>set ?recs. 0 < x) \<longleftrightarrow> \<not> (\<forall>x\<in>set ?recs. x = 0)"
    using nonneg by (metis less_eq_real_def less_irrefl)
  have recs: "time_records (snd (cell16 e w)) = ?recs"
      "total_time (snd (cell16 e w)) = sum_list ?recs"
      "fst (cell16 e w) = py_div 100 (sum_list ?recs)"
    by (simp_all add: cell16_eq)
  show ?thesis
    unfolding recs py_div_def using zero pos by auto
qed

theorem unguarded_average_division_witness:
  "mono (clock press0) \<and> fst (cell16 press0 board) = Inr 1 \<and>
   mono (clock frozen) \<and> fst (cell16 frozen board) = Inl ZeroDivisionError \<and>
   total_time (snd (cell16 frozen board)) = 0"
proof -
  have m1: "mono (clock press0)" by (simp add: press0_def mono_def)
  have m2: "mono (clock frozen)" by (simp add: frozen_def mono_def)
  have "elapsed_sample press0 (timer_calls board) = (\<lambda>i. 1)"
    by (rule ext) (simp add: elapsed_sample_def press0_def)
  then have r1: "map (elapsed_sample press0 (timer_calls board)) [0..<100] = replicate 100 1"
    by (simp add: map_replicate_const del: upt_Suc upt_rec_numeral)
  have "elapsed_sample frozen (timer_calls board) = (\<lambda>i. 0)"
    by (rule ext) (simp add: elapsed_sample_def frozen_def)
  then have r2: "map (elapsed_sample frozen (timer_calls board)) [0..<100] = replicate 100 0"
    by (simp add: map_replicate_const del: upt_Suc upt_rec_numeral)
  have "fst (cell16 press0 board) = Inr 1"
    by (simp add: cell16_eq r1 py_div_def sum_list_replicate)
  moreover have "total_time (snd (cell16 frozen board)) = 0"
    by (simp add: cell16_eq r2 sum_list_replicate)
  ultimately show ?thesis
    using m1 m2 unguarded_average_division [OF m2, of board]
      unguarded_average_division [OF m1, of board]
    by simp
qed

text \<open>
  C10. Every topic cell 14 publishes on is one of \<^verbatim>\<open>button/0\<close>, \<^verbatim>\<open>button/1\<close>,
  \<^verbatim>\<open>button/2\<close>, in every iteration and at the exit, however long the loop has run;
  nothing is ever published on \<^verbatim>\<open>button/3\<close>, by the cell or by the notebook as a
  whole. Button 3 is read all the same: once for each iteration (each iteration makes one
  \<^verbatim>\<open>client.loop\<close> call) and once more for the check that leaves the loop.
\<close>

theorem exit_button_never_published:
  "set (map fst (publishes (emitted w (pworld (snd (cell14 fuel e w)))))) \<subseteq> set button_topics \<and>
   ''button/3'' \<notin> set button_topics \<and>
   (\<forall>p. (''button/3'', p) \<notin> set (publishes (emitted w (pworld (snd (cell14 fuel e w)))))) \<and>
   (\<forall>p. (''button/3'', p) \<notin> set (publishes (emitted w (snd (notebook fuel e w))))) \<and>
   count_list (button_reads (emitted w (pworld (snd (cell14 fuel e w))))) 3
     = length (loop_calls (emitted w (pworld (snd (cell14 fuel e w)))))
       + (if fst (cell14 fuel e w) = Running then 0 else 1)"
proof -
  obtain evs where E: "trace (pworld (snd (cell14 fuel e w))) = trace w @ evs"
      "set (map fst (publishes evs)) \<subseteq> set button_topics"
      "count_list (button_reads evs) 3
         = length (loop_calls evs) + (if fst (cell14 fuel e w) = Running then 0 else 1)"
    using cell14_emits [of fuel e w] by blast
  obtain evs' where N: "trace (snd (notebook fuel e w)) = trace w @ evs'"
      "set (map fst (publishes evs')) \<subseteq> set button_topics \<union> {''foo''}"
    using notebook_emits [of fuel e w] by blast
  have b3: "''button/3'' \<notin> set button_topics"
    by (simp add: button_topics_eq)
  have c: "\<forall>p. (''button/3'', p) \<notin> set (publishes evs)"
    using E(2) b3 by (meson topic_not_published)
  have "''button/3'' \<notin> set button_topics \<union> {''foo''}"
    using b3 by simp
  then have n: "\<forall>p. (''button/3'', p) \<notin> set (publishes evs')"
    using N(2) by (meson topic_not_published)
  show ?thesis
    using E(2,3) b3 c n by (simp add: emittedI [OF E(1)] emittedI [OF N(1)])
qed

theorem exit_button_never_published_witness:
  "button_reads (emitted board (pworld (snd (cell14 5 press0 board))))
     = [0, 1, 2, 3, 0, 1, 2, 3, 0, 1, 2, 3] \<and>
   set (map fst (publishes (emitted board (pworld (snd (cell14 5 press0 board))))))
     \<subseteq> set button_topics \<and>
   count_list (button_reads (emitted board (pworld (snd (cell14 5 press0 board))))) 3
     = length (loop_calls (emitted board (pworld (snd (cell14 5 press0 board))))) + 1"
proof -
  have "button_reads (emitted board (pworld (snd (cell14 5 press0 board))))
     = [0, 1, 2, 3, 0, 1, 2, 3, 0, 1, 2, 3]"
    by code_simp
  moreover have "fst (cell14 5 press0 board) = Exited"
    by code_simp
  ultimately show ?thesis
    using exit_button_never_published [of board 5 press0] by simp
qed

end
